theory Spec2Isabelle
  imports Main
begin

section \<open>The podman fleet controller (src/podman/manage\_podman.py)\<close>

text \<open>
  The script shells out to \<^verbatim>\<open>sudo podman ...\<close>, parses what the runtime prints and
  logs what it finds. The embedding keeps the two Python data types apart:
  \<^item> \<^verbatim>\<open>bytes\<close> (what \<^verbatim>\<open>subprocess.run\<close> captures) is a list of 8-bit characters;
  \<^item> \<^verbatim>\<open>str\<close> is a list of Unicode code points, each a natural number.

  The external collaborators are inputs of the model: the runtime is a function from the
  argument vector and the state of the outside world to what the process wrote and the
  new state of the world, and the parsed command line is a value of type \<open>namespace\<close>.
  Every effect of the script (a log record, a process invocation) is appended to the
  event trace of the state, in program order.
\<close>

subsection \<open>Python values\<close>

type_synonym bytes = "char list"
type_synonym str = "nat list"

text \<open>A string literal of the source (all of them are ASCII) as a \<^verbatim>\<open>str\<close>.\<close>

definition lit :: "string \<Rightarrow> str" where
  "lit s = map of_char s"

text \<open>The exceptions that the script can meet and never catches.\<close>

datatype error = UnicodeDecodeError | UnicodeEncodeError | ValueError

text \<open>
  \<^verbatim>\<open>bytes.decode("utf-8")\<close> with the default strict error handler: it accepts exactly
  the well-formed UTF-8 byte sequences (no overlong form, no surrogate, nothing above
  U+10FFFF, no truncated sequence) and raises \<^verbatim>\<open>UnicodeDecodeError\<close> on anything else.
\<close>

definition continuation :: "nat \<Rightarrow> bool" where
  "continuation b = (0x80 \<le> b \<and> b \<le> 0xBF)"

fun decode_utf8 :: "nat list \<Rightarrow> str option" where
  "decode_utf8 [] = Some []"
| "decode_utf8 (b0 # bs) =
    (if b0 < 0x80 then map_option ((#) b0) (decode_utf8 bs)
     else if b0 < 0xC2 then None
     else if b0 < 0xE0 then
       (case bs of
          b1 # r \<Rightarrow>
            if continuation b1
            then map_option ((#) ((b0 - 0xC0) * 0x40 + (b1 - 0x80))) (decode_utf8 r)
            else None
        | _ \<Rightarrow> None)
     else if b0 < 0xF0 then
       (case bs of
          b1 # b2 # r \<Rightarrow>
            if (if b0 = 0xE0 then 0xA0 else 0x80) \<le> b1
               \<and> b1 \<le> (if b0 = 0xED then 0x9F else 0xBF) \<and> continuation b2
            then map_option
                   ((#) ((b0 - 0xE0) * 0x1000 + (b1 - 0x80) * 0x40 + (b2 - 0x80)))
                   (decode_utf8 r)
            else None
        | _ \<Rightarrow> None)
     else if b0 < 0xF5 then
       (case bs of
          b1 # b2 # b3 # r \<Rightarrow>
            if (if b0 = 0xF0 then 0x90 else 0x80) \<le> b1
               \<and> b1 \<le> (if b0 = 0xF4 then 0x8F else 0xBF)
               \<and> continuation b2 \<and> continuation b3
            then map_option
                   ((#) ((b0 - 0xF0) * 0x40000 + (b1 - 0x80) * 0x1000
                         + (b2 - 0x80) * 0x40 + (b3 - 0x80)))
                   (decode_utf8 r)
            else None
        | _ \<Rightarrow> None)
     else None)"

definition decode :: "bytes \<Rightarrow> error + str" where
  "decode b =
     (case decode_utf8 (map of_char b) of
        None \<Rightarrow> Inl UnicodeDecodeError
      | Some text \<Rightarrow> Inr text)"

text \<open>
  \<^verbatim>\<open>text.split(sep)\<close> for a separator of one character: the segments between the
  occurrences of the separator, so the result is never empty and
  \<^verbatim>\<open>"".split("\n") == [""]\<close>.
\<close>

fun split :: "nat \<Rightarrow> str \<Rightarrow> str list" where
  "split sep [] = [[]]"
| "split sep (c # cs) =
    (if c = sep then [] # split sep cs
     else (case split sep cs of
             [] \<Rightarrow> [[c]]
           | seg # segs \<Rightarrow> (c # seg) # segs))"

text \<open>
  \<^verbatim>\<open>str.isspace\<close> on one character, as CPython decides it: the code points whose
  bidirectional class is WS, B or S, and those of category Zs.
\<close>

definition isspace :: "nat \<Rightarrow> bool" where
  "isspace c =
     ((0x09 \<le> c \<and> c \<le> 0x0D) \<or> (0x1C \<le> c \<and> c \<le> 0x20) \<or> c = 0x85 \<or> c = 0xA0
      \<or> c = 0x1680 \<or> (0x2000 \<le> c \<and> c \<le> 0x200A) \<or> c = 0x2028 \<or> c = 0x2029
      \<or> c = 0x202F \<or> c = 0x205F \<or> c = 0x3000)"

text \<open>\<^verbatim>\<open>text.strip()\<close>: the whitespace at both ends removed.\<close>

definition strip :: "str \<Rightarrow> str" where
  "strip text = rev (dropWhile isspace (rev (dropWhile isspace text)))"

text \<open>A trimmed string starts and ends with a character that is not whitespace, or is empty.\<close>

definition trimmed :: "str \<Rightarrow> bool" where
  "trimmed text =
     (case text of
        [] \<Rightarrow> True
      | c # _ \<Rightarrow> \<not> isspace c \<and> \<not> isspace (last text))"

subsection \<open>The outside world: the runtime, the log, the command line\<close>

text \<open>
  What a finished process leaves behind. The script never passes
  \<^verbatim>\<open>check=True\<close>, so a non-zero return code raises nothing, and it reads the two
  streams only of the calls made with \<^verbatim>\<open>capture_output=True\<close>.
  Once the argument vector has been accepted, \<^verbatim>\<open>subprocess.run\<close> is taken to
  start the process and to return what the process produced: an operating system that
  cannot start the process at all is outside the model, the script's own handling of
  what the process printed is inside.
\<close>

record completed =
  stdout :: bytes
  stderr :: bytes
  returncode :: int

type_synonym 'w runtime = "str list \<Rightarrow> 'w \<Rightarrow> completed \<times> 'w"

datatype level = INFO | WARNING | ERROR

datatype log_arg = AStr str | ABytes bytes | AInt int

text \<open>
  A log record is its level, its format string and its arguments (the time stamp that
  the handler prints in front is not part of the model). A process invocation is its
  argument vector, whether its output was captured, and what the process produced.
\<close>

datatype event =
    Log level string "log_arg list"
  | Run "str list" bool completed

record 'w state =
  world :: 'w
  events :: "event list"

definition logger :: "level \<Rightarrow> string \<Rightarrow> log_arg list \<Rightarrow> 'w state \<Rightarrow> 'w state" where
  "logger lvl fmt args s = s\<lparr>events := events s @ [Log lvl fmt args]\<rparr>"

text \<open>
  What \<^verbatim>\<open>subprocess.run\<close> does to its argument vector before any process exists:
  each word in turn is encoded for the operating system and must then be free of
  U+0000. The filesystem encoding is taken to be UTF-8 (with the
  \<^verbatim>\<open>surrogateescape\<close> handler, as Python sets it up): a lone surrogate outside
  U+DC80..U+DCFF raises \<^verbatim>\<open>UnicodeEncodeError\<close>, and a word that holds U+0000
  raises \<^verbatim>\<open>ValueError\<close> (embedded null byte).
\<close>

definition fsencodable :: "nat \<Rightarrow> bool" where
  "fsencodable c = (c < 0xD800 \<or> (0xDC80 \<le> c \<and> c \<le> 0xDCFF) \<or> (0xE000 \<le> c \<and> c \<le> 0x10FFFF))"

fun fsconvert :: "str list \<Rightarrow> error option" where
  "fsconvert [] = None"
| "fsconvert (word # rest) =
    (if \<exists>c\<in>set word. \<not> fsencodable c then Some UnicodeEncodeError
     else if 0 \<in> set word then Some ValueError
     else fsconvert rest)"

text \<open>
  A call whose argument vector is refused raises at once: no process is started, the
  world and the trace stay as they are.
\<close>

definition subprocess_run ::
  "'w runtime \<Rightarrow> str list \<Rightarrow> bool \<Rightarrow> 'w state \<Rightarrow> (error + completed) \<times> 'w state" where
  "subprocess_run rt argv capture_output s =
     (case fsconvert argv of
        Some e \<Rightarrow> (Inl e, s)
      | None \<Rightarrow>
          (case rt argv (world s) of
             (result, w) \<Rightarrow>
               (Inr result,
                \<lparr>world = w, events = events s @ [Run argv capture_output result]\<rparr>)))"

text \<open>
  The \<^verbatim>\<open>Namespace\<close> that \<^verbatim>\<open>_parse_args\<close> returns: the sub-command is required
  and is one of three, and only \<^verbatim>\<open>start\<close> has the two options, \<^verbatim>\<open>build\<close>
  (a flag) and \<^verbatim>\<open>containers\<close> (any integer, 1 by default), in this order.
\<close>

datatype namespace = Start bool int | Info | Stop

subsection \<open>Module constants\<close>

definition IMAGE_NAME :: str where
  "IMAGE_NAME = lit ''ubuntu-ssh''"

definition USER :: str where
  "USER = lit ''test_user''"

definition PASSWD :: str where
  "PASSWD = lit ''1234''"

subsection \<open>The functions of the script\<close>

definition ps_argv :: "str list" where
  "ps_argv = map lit [''sudo'', ''podman'', ''ps'', ''--format'', ''{{.Names}}'']"

definition get_all_running_container_names ::
  "'w runtime \<Rightarrow> 'w state \<Rightarrow> (error + str list) \<times> 'w state" where
  "get_all_running_container_names rt s0 =
     (let s1 = logger INFO ''Fetching all podman containers'' [] s0
      in case subprocess_run rt ps_argv True s1 of
           (Inl e, s2) \<Rightarrow> (Inl e, s2)
         | (Inr result, s2) \<Rightarrow>
             if stderr result \<noteq> [] then
               (Inr [],
                logger ERROR ''Something went wrong when reading container names - %s''
                  [ABytes (stderr result)] s2)
             else
               (case decode (stdout result) of
                  Inl e \<Rightarrow> (Inl e, s2)
                | Inr text \<Rightarrow> (Inr (butlast (split 0x0A text)), s2)))"

definition inspect_argv :: "str \<Rightarrow> str list" where
  "inspect_argv container_name =
     map lit [''sudo'', ''podman'', ''inspect'', ''--format'',
              ''{{range.NetworkSettings.Networks}}{{.IPAddress}}{{end}}'']
     @ [container_name]"

definition get_container_ip_address ::
  "'w runtime \<Rightarrow> str \<Rightarrow> 'w state \<Rightarrow> (error + str) \<times> 'w state" where
  "get_container_ip_address rt container_name s0 =
     (let s1 = logger INFO ''Fetching ip address of container `%s`'' [AStr container_name] s0
      in case subprocess_run rt (inspect_argv container_name) True s1 of
           (Inl e, s2) \<Rightarrow> (Inl e, s2)
         | (Inr result, s2) \<Rightarrow>
             if stderr result \<noteq> [] then
               (Inr (lit ''0.0.0.0''),
                logger ERROR ''Something went wrong when container ip address - %s''
                  [ABytes (stderr result)] s2)
             else
               (case decode (stdout result) of
                  Inl e \<Rightarrow> (Inl e, s2)
                | Inr text \<Rightarrow> (Inr text, s2)))"

definition container_fmt :: string where
  "container_fmt = ''Container `%s` - IP: `%s`, USER: `%s`, PASSWD: `%s`''"

text \<open>The \<^verbatim>\<open>for\<close> loop of \<^verbatim>\<open>print_podman_info\<close>.\<close>

fun report_loop :: "'w runtime \<Rightarrow> str list \<Rightarrow> 'w state \<Rightarrow> (error + unit) \<times> 'w state" where
  "report_loop rt [] s = (Inr (), s)"
| "report_loop rt (container_name # rest) s =
    (case get_container_ip_address rt container_name s of
       (Inl e, s1) \<Rightarrow> (Inl e, s1)
     | (Inr ip, s1) \<Rightarrow>
         report_loop rt rest
           (logger INFO container_fmt
              [AStr container_name, AStr (strip ip), AStr USER, AStr PASSWD] s1))"

definition print_podman_info :: "'w runtime \<Rightarrow> 'w state \<Rightarrow> (error + unit) \<times> 'w state" where
  "print_podman_info rt s0 =
     (let s1 = logger INFO ''Fetching podman container info'' [] s0
      in case get_all_running_container_names rt s1 of
           (Inl e, s2) \<Rightarrow> (Inl e, s2)
         | (Inr containers, s2) \<Rightarrow>
             if containers = [] then
               (Inr (), logger WARNING ''No running containers found'' [] s2)
             else report_loop rt containers s2)"


definition build_argv :: "str \<Rightarrow> str list" where
  "build_argv dockerfile =
     map lit [''sudo'', ''podman'', ''build'', ''-t''] @ [IMAGE_NAME, lit ''-f'', dockerfile]"

definition build_podman_image ::
  "'w runtime \<Rightarrow> str \<Rightarrow> 'w state \<Rightarrow> (error + unit) \<times> 'w state" where
  "build_podman_image rt dockerfile s0 =
     (let s1 = logger INFO ''Building image `%s`'' [AStr IMAGE_NAME] s0
      in case subprocess_run rt (build_argv dockerfile) False s1 of
           (Inl e, s2) \<Rightarrow> (Inl e, s2)
         | (Inr _, s2) \<Rightarrow> (Inr (), s2))"

definition run_argv :: "str list" where
  "run_argv = map lit [''sudo'', ''podman'', ''run'', ''-dt''] @ [IMAGE_NAME]"

text \<open>
  The loop \<^verbatim>\<open>for _ in range(containers)\<close>; \<^verbatim>\<open>range\<close> of a negative number is
  empty, so the loop runs \<open>nat containers\<close> times.
\<close>

fun start_loop :: "'w runtime \<Rightarrow> nat \<Rightarrow> 'w state \<Rightarrow> (error + unit) \<times> 'w state" where
  "start_loop rt 0 s = (Inr (), s)"
| "start_loop rt (Suc n) s =
    (case subprocess_run rt run_argv False
            (logger INFO ''Starting container with image `%s`'' [AStr IMAGE_NAME] s) of
       (Inl e, s1) \<Rightarrow> (Inl e, s1)
     | (Inr _, s1) \<Rightarrow> start_loop rt n s1)"

definition start_podman_containers ::
  "'w runtime \<Rightarrow> int \<Rightarrow> 'w state \<Rightarrow> (error + unit) \<times> 'w state" where
  "start_podman_containers rt containers s0 =
     (let s1 = logger INFO ''Starting %d podman containers'' [AInt containers] s0
      in start_loop rt (nat containers) s1)"

definition stop_argv :: "str \<Rightarrow> str list" where
  "stop_argv container_name = map lit [''sudo'', ''podman'', ''stop''] @ [container_name]"

fun stop_loop :: "'w runtime \<Rightarrow> str list \<Rightarrow> 'w state \<Rightarrow> (error + unit) \<times> 'w state" where
  "stop_loop rt [] s = (Inr (), s)"
| "stop_loop rt (container_name # rest) s =
    (case subprocess_run rt (stop_argv container_name) False
            (logger INFO ''Stopping container `%s`'' [AStr container_name] s) of
       (Inl e, s1) \<Rightarrow> (Inl e, s1)
     | (Inr _, s1) \<Rightarrow> stop_loop rt rest s1)"

definition stop_podman_containers :: "'w runtime \<Rightarrow> 'w state \<Rightarrow> (error + unit) \<times> 'w state" where
  "stop_podman_containers rt s0 =
     (let s1 = logger INFO ''Stopping podman containers'' [] s0
      in case get_all_running_container_names rt s1 of
           (Inl e, s2) \<Rightarrow> (Inl e, s2)
         | (Inr containers, s2) \<Rightarrow> stop_loop rt containers s2)"

text \<open>
  \<^verbatim>\<open>main\<close>, from the parsed command line on. The \<^verbatim>\<open>match\<close> has a case for
  \<^verbatim>\<open>start\<close> and one for \<^verbatim>\<open>stop\<close>; \<^verbatim>\<open>info\<close> matches neither and falls through.
  An exception raised on the way leaves \<^verbatim>\<open>main\<close> at once.
\<close>

definition main :: "'w runtime \<Rightarrow> str \<Rightarrow> namespace \<Rightarrow> 'w state \<Rightarrow> (error + int) \<times> 'w state" where
  "main rt dockerfile namespace s0 =
     (case (case namespace of
              Start b n \<Rightarrow>
                (case (if b then build_podman_image rt dockerfile s0 else (Inr (), s0)) of
                   (Inl e, s1) \<Rightarrow> (Inl e, s1)
                 | (Inr _, s1) \<Rightarrow> start_podman_containers rt n s1)
            | Stop \<Rightarrow> stop_podman_containers rt s0
            | Info \<Rightarrow> (Inr (), s0)) of
        (Inl e, s1) \<Rightarrow> (Inl e, s1)
      | (Inr _, s1) \<Rightarrow>
          (case print_podman_info rt s1 of
             (Inl e, s2) \<Rightarrow> (Inl e, s2)
           | (Inr _, s2) \<Rightarrow> (Inr 0, s2)))"

subsection \<open>Views of the event trace\<close>

text \<open>The argument vectors of the processes invoked, in order.\<close>

fun run_calls :: "event list \<Rightarrow> str list list" where
  "run_calls [] = []"
| "run_calls (Run argv _ _ # evs) = argv # run_calls evs"
| "run_calls (Log _ _ _ # evs) = run_calls evs"

text \<open>What the invoked processes produced, in order.\<close>

fun responses :: "event list \<Rightarrow> completed list" where
  "responses [] = []"
| "responses (Run _ _ result # evs) = result # responses evs"
| "responses (Log _ _ _ # evs) = responses evs"

text \<open>The log records, in order.\<close>

fun report :: "event list \<Rightarrow> (level \<times> string \<times> log_arg list) list" where
  "report [] = []"
| "report (Log lvl fmt args # evs) = (lvl, fmt, args) # report evs"
| "report (Run _ _ _ # evs) = report evs"

text \<open>
  The events that a call has added to the trace, given the state before it and the state
  after it (every function of the script only ever appends to the trace).
\<close>

definition emitted :: "'w state \<Rightarrow> 'w state \<Rightarrow> event list" where
  "emitted s s' = drop (length (events s)) (events s')"

subsection \<open>Runtimes and states for the examples\<close>

text \<open>A run of the script starts with an empty trace; the examples need no world state.\<close>

definition initial :: "unit state" where
  "initial = \<lparr>world = (), events = []\<rparr>"

text \<open>A runtime that cannot reach its service: every call fails with a message.\<close>

definition failing_runtime :: "unit runtime" where
  "failing_runtime argv w =
     (\<lparr>stdout = [], stderr = ''Error: cannot connect to Podman'', returncode = 125\<rparr>, w)"

text \<open>A runtime with no container: every call succeeds and prints nothing.\<close>

definition idle_runtime :: "unit runtime" where
  "idle_runtime argv w = (\<lparr>stdout = [], stderr = [], returncode = 0\<rparr>, w)"

text \<open>The third word of an argument vector: the runtime's sub-command.\<close>

definition subcommand :: "str list \<Rightarrow> str" where
  "subcommand argv = (case argv of _ # _ # c # _ \<Rightarrow> c | _ \<Rightarrow> [])"

text \<open>
  A runtime with two containers: it lists their names, one per line, and answers every
  inspect call with an address followed by a newline, as podman does.
\<close>

definition fleet_runtime :: "unit runtime" where
  "fleet_runtime argv w =
     (if subcommand argv = lit ''ps'' then
        \<lparr>stdout = ''web\<newline>db\<newline>'', stderr = [], returncode = 0\<rparr>
      else if subcommand argv = lit ''inspect'' then
        \<lparr>stdout = ''10.88.0.2\<newline>'', stderr = [], returncode = 0\<rparr>
      else \<lparr>stdout = [], stderr = [], returncode = 0\<rparr>, w)"

text \<open>A runtime whose listing lacks the newline after the last name.\<close>

definition unterminated_runtime :: "unit runtime" where
  "unterminated_runtime argv w =
     (\<lparr>stdout = ''web\<newline>db'', stderr = [], returncode = 0\<rparr>, w)"



text \<open>
  The same fleet behind a runtime with a state of its own: it counts the calls it has
  served. A state in which it has served seven calls and the trace is not empty.
\<close>

definition counting_runtime :: "nat runtime" where
  "counting_runtime argv n = (fst (fleet_runtime argv ()), Suc n)"

definition resumed :: "nat state" where
  "resumed = \<lparr>world = 7, events = [Log INFO ''Fetching podman container info'' []]\<rparr>"

subsection \<open>Vocabulary of the properties\<close>




text \<open>The text in which every name of a list is followed by a newline.\<close>

definition lines_of :: "str list \<Rightarrow> str" where
  "lines_of names = concat (map (\<lambda>name. name @ [0x0A]) names)"

section \<open>Properties\<close>

subsection \<open>Effects of the primitives\<close>

lemma logger_simps:
  "events (logger lvl fmt args s) = events s @ [Log lvl fmt args]"
  "world (logger lvl fmt args s) = world s"
  by (simp_all add: logger_def)

lemma fsconvert_append:
  "fsconvert (xs @ ys) = (case fsconvert xs of Some e \<Rightarrow> Some e | None \<Rightarrow> fsconvert ys)"
  by (induction xs) simp_all

lemma fsencodable_of_char: "fsencodable (of_char c)"
proof -
  have "(of_char c :: nat) < 0xD800"
    using nat_of_char_less_256 [of c] by linarith
  then show ?thesis by (simp add: fsencodable_def)
qed

lemma fsconvert_lit: "0 \<notin> set (lit w) \<Longrightarrow> fsconvert (lit w # rest) = fsconvert rest"
  by (auto simp: lit_def fsencodable_of_char)

lemma fsconvert_lits:
  "\<forall>w\<in>set ws. 0 \<notin> set (lit w) \<Longrightarrow> fsconvert (map lit ws @ rest) = fsconvert rest"
  by (induction ws) (simp_all add: fsconvert_lit del: fsconvert.simps)

lemma literal_words:
  "0 \<notin> set (lit ''sudo'')" "0 \<notin> set (lit ''podman'')" "0 \<notin> set (lit ''ps'')"
  "0 \<notin> set (lit ''--format'')" "0 \<notin> set (lit ''{{.Names}}'')"
  "0 \<notin> set (lit ''inspect'')"
  "0 \<notin> set (lit ''{{range.NetworkSettings.Networks}}{{.IPAddress}}{{end}}'')"
  "0 \<notin> set (lit ''build'')" "0 \<notin> set (lit ''-t'')" "0 \<notin> set (lit ''-f'')"
  "0 \<notin> set (lit ''run'')" "0 \<notin> set (lit ''-dt'')" "0 \<notin> set (lit ''stop'')"
  "0 \<notin> set (lit ''ubuntu-ssh'')"
  by (simp_all add: lit_def)

lemma fsconvert_ps_argv: "fsconvert ps_argv = None"
  using fsconvert_lits [of "[''sudo'', ''podman'', ''ps'', ''--format'', ''{{.Names}}'']" "[]"]
  by (simp add: ps_argv_def literal_words del: fsconvert.simps(2))

lemma fsconvert_run_argv: "fsconvert run_argv = None"
  using fsconvert_lits [of "[''sudo'', ''podman'', ''run'', ''-dt'', ''ubuntu-ssh'']" "[]"]
  by (simp add: run_argv_def IMAGE_NAME_def literal_words del: fsconvert.simps(2))

lemma fsconvert_inspect_argv: "fsconvert (inspect_argv name) = fsconvert [name]"
  unfolding inspect_argv_def
  by (rule fsconvert_lits) (simp add: literal_words)



lemma subprocess_run_accepted:
  assumes "fsconvert argv = None"
  shows "fst (subprocess_run rt argv c s) = Inr (fst (rt argv (world s)))"
    and "world (snd (subprocess_run rt argv c s)) = snd (rt argv (world s))"
    and "events (snd (subprocess_run rt argv c s)) =
           events s @ [Run argv c (fst (rt argv (world s)))]"
  using assms by (simp_all add: subprocess_run_def split: prod.splits)

lemma subprocess_run_refused:
  assumes "fsconvert argv = Some e"
  shows "subprocess_run rt argv c s = (Inl e, s)"
  using assms by (simp add: subprocess_run_def)


lemma responses_append: "responses (xs @ ys) = responses xs @ responses ys"
  by (induction xs rule: responses.induct) simp_all

lemma report_append: "report (xs @ ys) = report xs @ report ys"
  by (induction xs rule: report.induct) simp_all

lemma emitted_append: "events s' = events s @ e \<Longrightarrow> emitted s s' = e"
  by (simp add: emitted_def)

subsection \<open>The listing\<close>

lemma names_run:
  "get_all_running_container_names rt s =
     (let s1 = logger INFO ''Fetching all podman containers'' [] s;
          r = fst (rt ps_argv (world s));
          s2 = snd (subprocess_run rt ps_argv True s1)
      in if stderr r \<noteq> [] then
           (Inr [],
            logger ERROR ''Something went wrong when reading container names - %s''
              [ABytes (stderr r)] s2)
         else
           (case decode (stdout r) of
              Inl e \<Rightarrow> (Inl e, s2)
            | Inr t \<Rightarrow> (Inr (butlast (split 0x0A t)), s2)))"
proof -
  let ?s1 = "logger INFO ''Fetching all podman containers'' [] s"
  obtain s2 where "subprocess_run rt ps_argv True ?s1 = (Inr (fst (rt ps_argv (world s))), s2)"
    using subprocess_run_accepted(1) [OF fsconvert_ps_argv, of rt True ?s1]
    by (cases "subprocess_run rt ps_argv True ?s1") (simp add: logger_simps)
  then show ?thesis
    by (simp add: get_all_running_container_names_def Let_def split: sum.splits)
qed

lemma names_result:
  "fst (get_all_running_container_names rt s) =
     (let r = fst (rt ps_argv (world s))
      in if stderr r \<noteq> [] then Inr []
         else case decode (stdout r) of
                Inl e \<Rightarrow> Inl e
              | Inr t \<Rightarrow> Inr (butlast (split 0x0A t)))"
  by (simp add: names_run Let_def split: sum.splits)

lemma names_world:
  "world (snd (get_all_running_container_names rt s)) = snd (rt ps_argv (world s))"
  by (simp add: names_run Let_def subprocess_run_accepted [OF fsconvert_ps_argv] logger_simps
      split: sum.splits)

lemma names_events:
  "events (snd (get_all_running_container_names rt s)) =
     (let r = fst (rt ps_argv (world s))
      in events s @ [Log INFO ''Fetching all podman containers'' [], Run ps_argv True r]
         @ (if stderr r \<noteq> [] then
              [Log ERROR ''Something went wrong when reading container names - %s''
                 [ABytes (stderr r)]]
            else []))"
  by (simp add: names_run Let_def subprocess_run_accepted [OF fsconvert_ps_argv] logger_simps
      split: sum.splits)

lemma decode_empty: "decode [] = Inr []"
  by (simp add: decode_def)


text \<open>
  C3. Whenever the list call of \<^verbatim>\<open>_get_all_running_container_names\<close> leaves a
  non-empty error stream, the function returns the empty list and raises nothing; a
  caller gets the very value it gets from a runtime that succeeds and lists no
  container (empty output, empty error stream).
\<close>

theorem get_all_running_container_names_error_empty:
  assumes "stderr (fst (rt ps_argv (world s))) \<noteq> []"
    and "stderr (fst (rt' ps_argv (world s'))) = []"
    and "stdout (fst (rt' ps_argv (world s'))) = []"
  shows "fst (get_all_running_container_names rt s) = Inr []
         \<and> fst (get_all_running_container_names rt' s')
             = fst (get_all_running_container_names rt s)"
  using assms by (simp add: names_result decode_empty)

theorem get_all_running_container_names_error_empty_witness:
  "stderr (fst (failing_runtime ps_argv (world initial))) \<noteq> []
   \<and> stderr (fst (idle_runtime ps_argv (world initial))) = []
   \<and> stdout (fst (idle_runtime ps_argv (world initial))) = []
   \<and> fst (get_all_running_container_names failing_runtime initial) = Inr []
   \<and> fst (get_all_running_container_names idle_runtime initial)
       = fst (get_all_running_container_names failing_runtime initial)"
proof -
  have h1: "stderr (fst (failing_runtime ps_argv (world initial))) \<noteq> []"
    by (simp add: failing_runtime_def)
  have h2: "stderr (fst (idle_runtime ps_argv (world initial))) = []"
    by (simp add: idle_runtime_def)
  have h3: "stdout (fst (idle_runtime ps_argv (world initial))) = []"
    by (simp add: idle_runtime_def)
  from get_all_running_container_names_error_empty
         [of failing_runtime initial idle_runtime initial, OF h1 h2 h3] h1 h2 h3
  show ?thesis by simp
qed

subsection \<open>The inspection\<close>

lemma ip_refused:
  assumes "fsconvert [name] = Some e"
  shows "get_container_ip_address rt name s =
           (Inl e, logger INFO ''Fetching ip address of container `%s`'' [AStr name] s)"
  using assms
  by (simp add: get_container_ip_address_def Let_def subprocess_run_refused
      fsconvert_inspect_argv del: fsconvert.simps)

lemma ip_accepted:
  assumes "fsconvert [name] = None"
  shows "get_container_ip_address rt name s =
     (let s1 = logger INFO ''Fetching ip address of container `%s`'' [AStr name] s;
          r = fst (rt (inspect_argv name) (world s));
          s2 = snd (subprocess_run rt (inspect_argv name) True s1)
      in if stderr r \<noteq> [] then
           (Inr (lit ''0.0.0.0''),
            logger ERROR ''Something went wrong when container ip address - %s''
              [ABytes (stderr r)] s2)
         else
           (case decode (stdout r) of
              Inl e \<Rightarrow> (Inl e, s2)
            | Inr t \<Rightarrow> (Inr t, s2)))"
proof -
  let ?s1 = "logger INFO ''Fetching ip address of container `%s`'' [AStr name] s"
  from assms have ok: "fsconvert (inspect_argv name) = None"
    by (simp only: fsconvert_inspect_argv)
  obtain s2 where "subprocess_run rt (inspect_argv name) True ?s1
        = (Inr (fst (rt (inspect_argv name) (world s))), s2)"
    using subprocess_run_accepted(1) [OF ok, of rt True ?s1]
    by (cases "subprocess_run rt (inspect_argv name) True ?s1") (simp add: logger_simps)
  then show ?thesis
    by (simp add: get_container_ip_address_def Let_def split: sum.splits)
qed

lemma ip_result:
  "fst (get_container_ip_address rt name s) =
     (case fsconvert [name] of
        Some e \<Rightarrow> Inl e
      | None \<Rightarrow>
          (let r = fst (rt (inspect_argv name) (world s))
           in if stderr r \<noteq> [] then Inr (lit ''0.0.0.0'') else decode (stdout r)))"
proof (cases "fsconvert [name]")
  case None
  then show ?thesis by (simp add: ip_accepted Let_def split: sum.splits del: fsconvert.simps)
next
  case (Some e)
  then show ?thesis by (simp add: ip_refused del: fsconvert.simps)
qed

lemma ip_events:
  "events (snd (get_container_ip_address rt name s)) =
     events s @ Log INFO ''Fetching ip address of container `%s`'' [AStr name]
     # (case fsconvert [name] of
          Some e \<Rightarrow> []
        | None \<Rightarrow>
            (let r = fst (rt (inspect_argv name) (world s))
             in Run (inspect_argv name) True r
                # (if stderr r \<noteq> [] then
                     [Log ERROR ''Something went wrong when container ip address - %s''
                        [ABytes (stderr r)]]
                   else [])))"
proof (cases "fsconvert [name]")
  case None
  then have ok: "fsconvert (inspect_argv name) = None"
    by (simp only: fsconvert_inspect_argv)
  from None show ?thesis
    by (simp add: ip_accepted Let_def subprocess_run_accepted [OF ok] logger_simps
        split: sum.splits del: fsconvert.simps)
next
  case (Some e)
  then show ?thesis by (simp add: ip_refused logger_simps del: fsconvert.simps)
qed
text \<open>
  C2. Whenever the inspect call that \<^verbatim>\<open>_get_container_ip_address\<close> makes leaves a
  non-empty error stream, the function returns the literal \<^verbatim>\<open>"0.0.0.0"\<close>, for every
  container name, every runtime and whatever the call printed on its standard output:
  the result is a value, never an exception.
\<close>

theorem get_container_ip_address_error_sentinel:
  assumes "Run (inspect_argv container_name) True result
             \<in> set (emitted s (snd (get_container_ip_address rt container_name s)))"
    and "stderr result \<noteq> []"
  shows "fst (get_container_ip_address rt container_name s) = Inr (lit ''0.0.0.0'')"
proof (cases "fsconvert [container_name]")
  case (Some e)
  have "emitted s (snd (get_container_ip_address rt container_name s))
        = [Log INFO ''Fetching ip address of container `%s`'' [AStr container_name]]"
    by (rule emitted_append) (simp add: ip_events Some del: fsconvert.simps)
  with assms(1) show ?thesis by simp
next
  case None
  let ?r = "fst (rt (inspect_argv container_name) (world s))"
  have "emitted s (snd (get_container_ip_address rt container_name s))
        = Log INFO ''Fetching ip address of container `%s`'' [AStr container_name]
          # Run (inspect_argv container_name) True ?r
          # (if stderr ?r \<noteq> [] then
               [Log ERROR ''Something went wrong when container ip address - %s''
                  [ABytes (stderr ?r)]]
             else [])"
    by (rule emitted_append) (simp add: ip_events None Let_def del: fsconvert.simps)
  with assms(1) have "result = ?r" by (simp split: if_splits)
  with assms(2) None show ?thesis by (simp add: ip_result del: fsconvert.simps)
qed

lemma fsconvert_web: "fsconvert [lit ''web''] = None"
  by (simp add: lit_def fsencodable_def)

theorem get_container_ip_address_error_sentinel_witness:
  "Run (inspect_argv (lit ''web'')) True (fst (failing_runtime (inspect_argv (lit ''web'')) ()))
     \<in> set (emitted initial (snd (get_container_ip_address failing_runtime (lit ''web'') initial)))
   \<and> stderr (fst (failing_runtime (inspect_argv (lit ''web'')) ())) \<noteq> []
   \<and> fst (get_container_ip_address failing_runtime (lit ''web'') initial)
       = Inr (lit ''0.0.0.0'')"
proof -
  let ?r = "fst (failing_runtime (inspect_argv (lit ''web'')) ())"
  have "emitted initial (snd (get_container_ip_address failing_runtime (lit ''web'') initial))
        = Log INFO ''Fetching ip address of container `%s`'' [AStr (lit ''web'')]
          # Run (inspect_argv (lit ''web'')) True ?r
          # (if stderr ?r \<noteq> [] then
               [Log ERROR ''Something went wrong when container ip address - %s''
                  [ABytes (stderr ?r)]]
             else [])"
    by (rule emitted_append)
       (simp add: ip_events fsconvert_web Let_def initial_def del: fsconvert.simps)
  then have h1: "Run (inspect_argv (lit ''web'')) True ?r
      \<in> set (emitted initial (snd (get_container_ip_address failing_runtime (lit ''web'') initial)))"
    by simp
  have h2: "stderr ?r \<noteq> []" by (simp add: failing_runtime_def)
  from get_container_ip_address_error_sentinel [OF h1 h2] h1 h2 show ?thesis by simp
qed

subsection \<open>Splitting the listing into names\<close>

lemma split_nonempty: "split sep text \<noteq> []"
  by (induction "text") (auto split: list.splits)

lemma split_no_sep: "sep \<notin> set text \<Longrightarrow> split sep text = [text]"
  by (induction "text") auto

lemma split_line: "sep \<notin> set name \<Longrightarrow> split sep (name @ sep # rest) = name # split sep rest"
  by (induction name) auto

lemma split_lines:
  "\<forall>name\<in>set names. sep \<notin> set name \<Longrightarrow> sep \<notin> set final \<Longrightarrow>
   split sep (concat (map (\<lambda>name. name @ [sep]) names) @ final) = names @ [final]"
  by (induction names) (simp_all add: split_no_sep split_line)

lemma split_segments: "seg \<in> set (split sep text) \<Longrightarrow> sep \<notin> set seg"
proof (induction "text" arbitrary: seg)
  case Nil
  then show ?case by simp
next
  case (Cons c cs)
  show ?case
  proof (cases "c = sep")
    case True
    with Cons show ?thesis by auto
  next
    case False
    obtain s0 ss where sp: "split sep cs = s0 # ss"
      using split_nonempty [of sep cs] by (cases "split sep cs") auto
    with Cons False show ?thesis by auto
  qed
qed

lemma join_split:
  "concat (map (\<lambda>name. name @ [sep]) (butlast (split sep text))) @ last (split sep text) = text"
proof (induction "text")
  case Nil
  show ?case by simp
next
  case (Cons c cs)
  obtain s0 ss where sp: "split sep cs = s0 # ss"
    using split_nonempty [of sep cs] by (cases "split sep cs") auto
  with Cons show ?case by (cases ss) auto
qed

lemma lines_last:
  assumes "names \<noteq> []"
  shows "concat (map (\<lambda>name. name @ [sep]) names) \<noteq> []
         \<and> last (concat (map (\<lambda>name. name @ [sep]) names)) = sep"
proof -
  from assms have "names = butlast names @ [last names]" by simp
  then obtain front l where "names = front @ [l]" by blast
  then show ?thesis by simp
qed

lemma last_split_empty:
  "last (split sep t) = [] \<longleftrightarrow> t = [] \<or> last t = sep"
proof
  assume empty: "last (split sep t) = []"
  with join_split [of sep t]
  have t: "t = concat (map (\<lambda>name. name @ [sep]) (butlast (split sep t)))" by simp
  show "t = [] \<or> last t = sep"
  proof (cases "butlast (split sep t) = []")
    case True
    with t show ?thesis by simp
  next
    case False
    from lines_last [OF False, of sep] t show ?thesis by simp
  qed
next
  assume "t = [] \<or> last t = sep"
  then show "last (split sep t) = []"
  proof
    assume "t = []"
    then show ?thesis by simp
  next
    assume l: "last t = sep"
    show ?thesis
    proof (rule ccontr)
      assume ne: "last (split sep t) \<noteq> []"
      have "last (split sep t) \<in> set (split sep t)"
        using split_nonempty [of sep t] by simp
      then have free: "sep \<notin> set (last (split sep t))" by (rule split_segments)
      from join_split [of sep t] ne have "last t = last (last (split sep t))"
        by (metis last_appendR)
      with l ne free show False by (metis last_in_set)
    qed
  qed
qed

subsection \<open>What decoding keeps\<close>

lemma decode_utf8_one:
  "b0 < 0x80 \<Longrightarrow> decode_utf8 (b0 # bs) = map_option ((#) b0) (decode_utf8 bs)"
  by simp

lemma decode_utf8_two:
  "0xC2 \<le> b0 \<Longrightarrow> b0 < 0xE0 \<Longrightarrow>
   decode_utf8 (b0 # bs) =
     (case bs of
        b1 # r \<Rightarrow>
          if continuation b1
          then map_option ((#) ((b0 - 0xC0) * 0x40 + (b1 - 0x80))) (decode_utf8 r)
          else None
      | _ \<Rightarrow> None)"
  by simp

lemma decode_utf8_three:
  "0xE0 \<le> b0 \<Longrightarrow> b0 < 0xF0 \<Longrightarrow>
   decode_utf8 (b0 # bs) =
     (case bs of
        b1 # b2 # r \<Rightarrow>
          if (if b0 = 0xE0 then 0xA0 else 0x80) \<le> b1
             \<and> b1 \<le> (if b0 = 0xED then 0x9F else 0xBF) \<and> continuation b2
          then map_option
                 ((#) ((b0 - 0xE0) * 0x1000 + (b1 - 0x80) * 0x40 + (b2 - 0x80)))
                 (decode_utf8 r)
          else None
      | _ \<Rightarrow> None)"
  by simp

lemma decode_utf8_four:
  "0xF0 \<le> b0 \<Longrightarrow> b0 < 0xF5 \<Longrightarrow>
   decode_utf8 (b0 # bs) =
     (case bs of
        b1 # b2 # b3 # r \<Rightarrow>
          if (if b0 = 0xF0 then 0x90 else 0x80) \<le> b1
             \<and> b1 \<le> (if b0 = 0xF4 then 0x8F else 0xBF)
             \<and> continuation b2 \<and> continuation b3
          then map_option
                 ((#) ((b0 - 0xF0) * 0x40000 + (b1 - 0x80) * 0x1000
                       + (b2 - 0x80) * 0x40 + (b3 - 0x80)))
                 (decode_utf8 r)
          else None
      | _ \<Rightarrow> None)"
  by simp

lemma decode_utf8_bad:
  "0x80 \<le> b0 \<and> b0 < 0xC2 \<or> 0xF5 \<le> b0 \<Longrightarrow> decode_utf8 (b0 # bs) = None"
  by auto


lemma decode_utf8_step:
  assumes "decode_utf8 (b0 # bs) = Some t"
  shows "\<exists>k r c t'. bs = k @ r \<and> t = c # t' \<and> decode_utf8 r = Some t'
           \<and> (k = [] \<longrightarrow> c = b0)
           \<and> (k \<noteq> [] \<longrightarrow> last k \<noteq> 0x0A \<and> c \<noteq> 0x0A \<and> b0 \<noteq> 0x0A)"
proof -
  consider (one) "b0 < 0x80" | (two) "0xC2 \<le> b0" "b0 < 0xE0" | (three) "0xE0 \<le> b0" "b0 < 0xF0"
    | (four) "0xF0 \<le> b0" "b0 < 0xF5" | (bad) "0x80 \<le> b0 \<and> b0 < 0xC2 \<or> 0xF5 \<le> b0"
    by linarith
  then show ?thesis
  proof cases
    case one
    with assms obtain t' where "decode_utf8 bs = Some t'" "t = b0 # t'"
      by (auto simp: decode_utf8_one simp del: decode_utf8.simps)
    then show ?thesis by (intro exI [of _ "[]"] exI [of _ bs] exI [of _ b0] exI [of _ t']) simp
  next
    case two
    from assms obtain b1 r t' where "bs = b1 # r" "0x80 \<le> b1" "decode_utf8 r = Some t'"
      "t = ((b0 - 0xC0) * 0x40 + (b1 - 0x80)) # t'"
      unfolding decode_utf8_two [OF two]
      by (auto simp: continuation_def simp del: decode_utf8.simps split: list.splits if_splits)
    with two show ?thesis
      by (intro exI [of _ "[b1]"] exI [of _ r] exI [of _ "(b0 - 0xC0) * 0x40 + (b1 - 0x80)"]
          exI [of _ t']) simp
  next
    case three
    from assms obtain b1 b2 r t' where "bs = b1 # b2 # r" "0x80 \<le> b2"
      "(if b0 = 0xE0 then 0xA0 else 0x80) \<le> b1" "decode_utf8 r = Some t'"
      "t = ((b0 - 0xE0) * 0x1000 + (b1 - 0x80) * 0x40 + (b2 - 0x80)) # t'"
      unfolding decode_utf8_three [OF three]
      by (auto simp: continuation_def simp del: decode_utf8.simps split: list.splits if_splits)
    with three show ?thesis
      by (intro exI [of _ "[b1, b2]"] exI [of _ r]
          exI [of _ "(b0 - 0xE0) * 0x1000 + (b1 - 0x80) * 0x40 + (b2 - 0x80)"]
          exI [of _ t']) (simp split: if_splits)
  next
    case four
    from assms obtain b1 b2 b3 r t' where "bs = b1 # b2 # b3 # r" "0x80 \<le> b3"
      "(if b0 = 0xF0 then 0x90 else 0x80) \<le> b1" "decode_utf8 r = Some t'"
      "t = ((b0 - 0xF0) * 0x40000 + (b1 - 0x80) * 0x1000 + (b2 - 0x80) * 0x40 + (b3 - 0x80)) # t'"
      unfolding decode_utf8_four [OF four]
      by (auto simp: continuation_def simp del: decode_utf8.simps split: list.splits if_splits)
    with four show ?thesis
      by (intro exI [of _ "[b1, b2, b3]"] exI [of _ r]
          exI [of _ "(b0 - 0xF0) * 0x40000 + (b1 - 0x80) * 0x1000 + (b2 - 0x80) * 0x40 + (b3 - 0x80)"]
          exI [of _ t']) (simp split: if_splits)
  next
    case bad
    with assms show ?thesis by (simp add: decode_utf8_bad del: decode_utf8.simps)
  qed
qed

lemma decode_utf8_last:
  "decode_utf8 bs = Some t \<Longrightarrow>
   (bs = [] \<longleftrightarrow> t = []) \<and> (bs \<noteq> [] \<longrightarrow> (last bs = 0x0A \<longleftrightarrow> last t = 0x0A))"
proof (induction bs arbitrary: t rule: length_induct)
  case (1 bs)
  show ?case
  proof (cases bs)
    case Nil
    with "1.prems" show ?thesis by simp
  next
    case (Cons b0 bs')
    with "1.prems" decode_utf8_step [of b0 bs' t] obtain k r c t' where
      step: "bs' = k @ r" "t = c # t'" "decode_utf8 r = Some t'" "k = [] \<longrightarrow> c = b0"
        "k \<noteq> [] \<longrightarrow> last k \<noteq> 0x0A \<and> c \<noteq> 0x0A \<and> b0 \<noteq> 0x0A"
      by blast
    have "length r < length bs" using Cons step(1) by simp
    with "1.IH" step(3) have
      ih: "(r = [] \<longleftrightarrow> t' = []) \<and> (r \<noteq> [] \<longrightarrow> (last r = 0x0A \<longleftrightarrow> last t' = 0x0A))"
      by blast
    show ?thesis
    proof (cases "r = []")
      case True
      with ih step Cons show ?thesis by (cases "k = []") auto
    next
      case False
      with ih step Cons show ?thesis by auto
    qed
  qed
qed

lemma decode_last:
  assumes "decode b = Inr t"
  shows "(b = [] \<longleftrightarrow> t = []) \<and> (b \<noteq> [] \<longrightarrow> (last b = CHR 0x0A \<longleftrightarrow> last t = 0x0A))"
proof -
  from assms have d: "decode_utf8 (map of_char b) = Some t"
    by (auto simp: decode_def split: option.splits)
  have "b \<noteq> [] \<Longrightarrow> last (map of_char b) = (0x0A::nat) \<longleftrightarrow> last b = CHR 0x0A"
  proof -
    assume "b \<noteq> []"
    then have "last (map of_char b) = (of_char (last b) :: nat)" by (simp add: last_map)
    moreover have "(of_char (last b) :: nat) = of_char (CHR 0x0A) \<longleftrightarrow> last b = CHR 0x0A"
      by (simp only: of_char_eq_iff)
    ultimately show ?thesis by simp
  qed
  with decode_utf8_last [OF d] show ?thesis by auto
qed


lemma fleet_listing:
  "stderr (fst (fleet_runtime ps_argv (world initial))) = []"
  "decode (stdout (fst (fleet_runtime ps_argv (world initial))))
     = Inr (lines_of [lit ''web'', lit ''db''])"
  by (simp_all add: fleet_runtime_def ps_argv_def subcommand_def lit_def decode_def lines_of_def)

text \<open>
  C8. When the list call succeeds (empty error stream) and its output is the text in
  which each name, itself free of newlines, is followed by a newline,
  \<^verbatim>\<open>_get_all_running_container_names\<close> returns exactly these names in the order of
  the output: the newline after the last name yields no empty final element.
\<close>

theorem get_all_running_container_names_lines:
  assumes "stderr (fst (rt ps_argv (world s))) = []"
    and "decode (stdout (fst (rt ps_argv (world s)))) = Inr (lines_of names)"
    and "\<forall>name\<in>set names. 0x0A \<notin> set name"
  shows "fst (get_all_running_container_names rt s) = Inr names"
proof -
  from assms(3) have "split 0x0A (lines_of names @ []) = names @ [[]]"
    unfolding lines_of_def by (intro split_lines) simp_all
  with assms(1,2) show ?thesis by (simp add: names_result)
qed

theorem get_all_running_container_names_lines_witness:
  "stderr (fst (fleet_runtime ps_argv (world initial))) = []
   \<and> decode (stdout (fst (fleet_runtime ps_argv (world initial))))
       = Inr (lines_of [lit ''web'', lit ''db''])
   \<and> 0x0A \<notin> set (lit ''web'') \<and> 0x0A \<notin> set (lit ''db'')
   \<and> fst (get_all_running_container_names fleet_runtime initial) = Inr [lit ''web'', lit ''db'']"
proof -
  have h3: "\<forall>name\<in>set [lit ''web'', lit ''db'']. 0x0A \<notin> set name"
    by (simp add: lit_def)
  from get_all_running_container_names_lines
         [of fleet_runtime initial "[lit ''web'', lit ''db'']", OF fleet_listing h3]
       fleet_listing h3
  show ?thesis by simp
qed

text \<open>
  C10. When the list call succeeds, \<^verbatim>\<open>_get_all_running_container_names\<close> returns
  the segments of \<^verbatim>\<open>split("\n")\<close> without the last one, always. For an empty
  output that is the empty list. For an output that is not empty and does not end with
  a newline, the output is a list of newline-terminated names followed by a final name
  that is not empty, and the function returns the names before it: the final name is
  left out, one element fewer than the names in the output.
\<close>

theorem get_all_running_container_names_unterminated:
  assumes "stderr (fst (rt ps_argv (world s))) = []"
    and "decode (stdout (fst (rt ps_argv (world s)))) = Inr t"
  shows "fst (get_all_running_container_names rt s) = Inr (butlast (split 0x0A t))
         \<and> (stdout (fst (rt ps_argv (world s))) = []
              \<longrightarrow> fst (get_all_running_container_names rt s) = Inr [])
         \<and> (stdout (fst (rt ps_argv (world s))) \<noteq> []
              \<and> last (stdout (fst (rt ps_argv (world s)))) \<noteq> CHR 0x0A
              \<longrightarrow> (\<exists>names final.
                     t = lines_of names @ final \<and> final \<noteq> [] \<and> 0x0A \<notin> set final
                     \<and> (\<forall>name\<in>set names. 0x0A \<notin> set name)
                     \<and> split 0x0A t = names @ [final]
                     \<and> fst (get_all_running_container_names rt s) = Inr names))"
proof -
  let ?out = "stdout (fst (rt ps_argv (world s)))"
  let ?names = "butlast (split 0x0A t)" and ?final = "last (split 0x0A t)"
  have res: "fst (get_all_running_container_names rt s) = Inr ?names"
    using assms by (simp add: names_result)
  have empty: "?out = [] \<longrightarrow> fst (get_all_running_container_names rt s) = Inr []"
    using assms decode_last [OF assms(2)] res by auto
  have cut: "\<exists>names final.
               t = lines_of names @ final \<and> final \<noteq> [] \<and> 0x0A \<notin> set final
               \<and> (\<forall>name\<in>set names. 0x0A \<notin> set name)
               \<and> split 0x0A t = names @ [final]
               \<and> fst (get_all_running_container_names rt s) = Inr names"
    if open_end: "?out \<noteq> []" "last ?out \<noteq> CHR 0x0A"
  proof -
    from decode_last [OF assms(2)] open_end have "t \<noteq> []" "last t \<noteq> 0x0A" by auto
    then have "?final \<noteq> []" by (simp add: last_split_empty)
    moreover have "t = lines_of ?names @ ?final"
      unfolding lines_of_def by (rule join_split [symmetric])
    moreover have "split 0x0A t = ?names @ [?final]"
      using split_nonempty [of "0x0A" t] by simp
    moreover have "?final \<in> set (split 0x0A t)"
      using split_nonempty [of "0x0A" t] by simp
    then have "0x0A \<notin> set ?final" by (rule split_segments)
    moreover have "\<forall>name\<in>set ?names. 0x0A \<notin> set name"
      by (meson in_set_butlastD split_segments)
    ultimately show ?thesis using res by blast
  qed
  from res empty cut show ?thesis by blast
qed

lemma unterminated_listing:
  "stderr (fst (unterminated_runtime ps_argv (world initial))) = []"
  "decode (stdout (fst (unterminated_runtime ps_argv (world initial))))
     = Inr (lit ''web\<newline>db'')"
  "stdout (fst (unterminated_runtime ps_argv (world initial))) \<noteq> []"
  "last (stdout (fst (unterminated_runtime ps_argv (world initial)))) \<noteq> CHR 0x0A"
  by (simp_all add: unterminated_runtime_def lit_def decode_def)

lemma idle_listing:
  "stderr (fst (idle_runtime ps_argv (world initial))) = []"
  "decode (stdout (fst (idle_runtime ps_argv (world initial)))) = Inr []"
  "stdout (fst (idle_runtime ps_argv (world initial))) = []"
  by (simp_all add: idle_runtime_def decode_def)

theorem get_all_running_container_names_unterminated_witness:
  "stderr (fst (unterminated_runtime ps_argv (world initial))) = []
   \<and> decode (stdout (fst (unterminated_runtime ps_argv (world initial))))
       = Inr (lit ''web\<newline>db'')
   \<and> stdout (fst (unterminated_runtime ps_argv (world initial))) \<noteq> []
   \<and> last (stdout (fst (unterminated_runtime ps_argv (world initial)))) \<noteq> CHR 0x0A
   \<and> fst (get_all_running_container_names unterminated_runtime initial) = Inr [lit ''web'']
   \<and> stderr (fst (idle_runtime ps_argv (world initial))) = []
   \<and> stdout (fst (idle_runtime ps_argv (world initial))) = []
   \<and> fst (get_all_running_container_names idle_runtime initial) = Inr []"
proof -
  have "fst (get_all_running_container_names unterminated_runtime initial)
        = Inr (butlast (split 0x0A (lit ''web\<newline>db'')))"
    using get_all_running_container_names_unterminated
            [of unterminated_runtime initial "lit ''web\<newline>db''",
             OF unterminated_listing(1,2)]
    by blast
  then have "fst (get_all_running_container_names unterminated_runtime initial)
             = Inr [lit ''web'']"
    by (simp add: lit_def)
  moreover have "fst (get_all_running_container_names idle_runtime initial) = Inr []"
    using get_all_running_container_names_unterminated
            [of idle_runtime initial "[]", OF idle_listing(1,2)] idle_listing(3)
    by blast
  ultimately show ?thesis using unterminated_listing idle_listing by blast
qed

subsection \<open>Words that the operating system accepts\<close>







subsection \<open>The two loops that change the fleet\<close>

lemma start_loop_events:
  "fst (start_loop rt n s) = Inr ()
   \<and> (\<exists>new. events (snd (start_loop rt n s)) = events s @ new
            \<and> run_calls new = replicate n run_argv)"
proof (induction n arbitrary: s)
  case 0
  show ?case by simp
next
  case (Suc n)
  let ?s0 = "logger INFO ''Starting container with image `%s`'' [AStr IMAGE_NAME] s"
  let ?r = "fst (rt run_argv (world s))"
  obtain s1 where run: "subprocess_run rt run_argv False ?s0 = (Inr ?r, s1)"
    using subprocess_run_accepted(1) [OF fsconvert_run_argv, of rt False ?s0]
    by (cases "subprocess_run rt run_argv False ?s0") (simp add: logger_simps)
  then have s1: "events s1
      = events s @ [Log INFO ''Starting container with image `%s`'' [AStr IMAGE_NAME],
                    Run run_argv False ?r]"
    using subprocess_run_accepted(3) [OF fsconvert_run_argv, of rt False ?s0]
    by (simp add: logger_simps)
  from Suc.IH [of s1] obtain new where
    new: "fst (start_loop rt n s1) = Inr ()" "events (snd (start_loop rt n s1)) = events s1 @ new"
      "run_calls new = replicate n run_argv"
    by blast
  let ?new = "[Log INFO ''Starting container with image `%s`'' [AStr IMAGE_NAME],
               Run run_argv False ?r] @ new"
  have "events (snd (start_loop rt (Suc n) s)) = events s @ ?new"
    using run new(2) s1 by simp
  moreover have "run_calls ?new = replicate (Suc n) run_argv"
    using new(3) by simp
  moreover have "fst (start_loop rt (Suc n) s) = Inr ()"
    using run new(1) by simp
  ultimately show ?case by blast
qed

text \<open>
  C4. For every count that is not negative, \<^verbatim>\<open>start_podman_containers\<close> returns and
  has invoked exactly \<open>count\<close> processes, each of them
  \<^verbatim>\<open>sudo podman run -dt ubuntu-ssh\<close>, and nothing else: no call for 0, three calls
  for 3. The runtime is arbitrary, so this holds whatever the calls return (any return
  code, any error stream): a call that fails does not end the loop.
\<close>

theorem start_podman_containers_run_calls:
  assumes "0 \<le> count"
  shows "fst (start_podman_containers rt count s) = Inr ()
         \<and> (\<exists>new. events (snd (start_podman_containers rt count s)) = events s @ new
                  \<and> run_calls new = replicate (nat count) run_argv
                  \<and> int (length (run_calls new)) = count)"
proof -
  let ?s1 = "logger INFO ''Starting %d podman containers'' [AInt count] s"
  from start_loop_events [of rt "nat count" ?s1] obtain new where
    new: "fst (start_loop rt (nat count) ?s1) = Inr ()"
      "events (snd (start_loop rt (nat count) ?s1)) = events ?s1 @ new"
      "run_calls new = replicate (nat count) run_argv"
    by blast
  let ?new = "Log INFO ''Starting %d podman containers'' [AInt count] # new"
  have "events (snd (start_podman_containers rt count s)) = events s @ ?new"
    using new(2) by (simp add: start_podman_containers_def logger_simps)
  moreover have "run_calls ?new = replicate (nat count) run_argv"
    using new(3) by simp
  moreover have "int (length (run_calls ?new)) = count"
    using new(3) assms by simp
  moreover have "fst (start_podman_containers rt count s) = Inr ()"
    using new(1) by (simp add: start_podman_containers_def)
  ultimately show ?thesis by blast
qed

theorem start_podman_containers_run_calls_witness:
  "(0::int) \<le> 3
   \<and> fst (start_podman_containers failing_runtime 3 initial) = Inr ()
   \<and> (\<exists>new. events (snd (start_podman_containers failing_runtime 3 initial))
               = events initial @ new
             \<and> run_calls new = replicate (nat 3) run_argv
             \<and> int (length (run_calls new)) = 3)"
proof -
  have h: "(0::int) \<le> 3" by simp
  from start_podman_containers_run_calls [of 3 failing_runtime initial, OF h] h
  show ?thesis by blast
qed



lemma fleet_names:
  "fst (get_all_running_container_names fleet_runtime s) = Inr [lit ''web'', lit ''db'']"
  by (simp add: names_result fleet_runtime_def ps_argv_def subcommand_def lit_def decode_def)




subsection \<open>The report depends on the runtime's answers only\<close>

lemma emitted_ip:
  "emitted s (snd (get_container_ip_address rt name s)) =
     Log INFO ''Fetching ip address of container `%s`'' [AStr name]
     # (case fsconvert [name] of
          Some e \<Rightarrow> []
        | None \<Rightarrow>
            (let r = fst (rt (inspect_argv name) (world s))
             in Run (inspect_argv name) True r
                # (if stderr r \<noteq> [] then
                     [Log ERROR ''Something went wrong when container ip address - %s''
                        [ABytes (stderr r)]]
                   else [])))"
  by (rule emitted_append) (simp add: ip_events del: fsconvert.simps)

lemma emitted_names:
  "emitted s (snd (get_all_running_container_names rt s)) =
     [Log INFO ''Fetching all podman containers'' [],
      Run ps_argv True (fst (rt ps_argv (world s)))]
     @ (if stderr (fst (rt ps_argv (world s))) \<noteq> [] then
          [Log ERROR ''Something went wrong when reading container names - %s''
             [ABytes (stderr (fst (rt ps_argv (world s))))]]
        else [])"
  by (rule emitted_append) (simp add: names_events Let_def)

lemma ip_extends:
  "events (snd (get_container_ip_address rt name s))
     = events s @ emitted s (snd (get_container_ip_address rt name s))"
  by (simp add: emitted_ip ip_events del: fsconvert.simps)

lemma names_extends:
  "events (snd (get_all_running_container_names rt s))
     = events s @ emitted s (snd (get_all_running_container_names rt s))"
  unfolding emitted_names by (simp add: names_events Let_def)

lemma report_loop_extends:
  "events (snd (report_loop rt names s)) = events s @ emitted s (snd (report_loop rt names s))"
proof (induction names arbitrary: s)
  case Nil
  show ?case by (simp add: emitted_def)
next
  case (Cons name rest)
  obtain res s1 where g: "get_container_ip_address rt name s = (res, s1)"
    by (cases "get_container_ip_address rt name s")
  from ip_extends [of rt name s] g obtain a where a: "events s1 = events s @ a" by auto
  show ?case
  proof (cases res)
    case (Inl e)
    with g a show ?thesis by (simp add: emitted_def)
  next
    case (Inr ip)
    let ?s2 = "logger INFO container_fmt [AStr name, AStr (strip ip), AStr USER, AStr PASSWD] s1"
    from Cons.IH [of ?s2] obtain b where b: "events (snd (report_loop rt rest ?s2)) = events ?s2 @ b"
      by blast
    with g a Inr have "events (snd (report_loop rt (name # rest) s))
        = events s @ (a @ Log INFO container_fmt [AStr name, AStr (strip ip), AStr USER, AStr PASSWD] # b)"
      by (simp add: logger_simps)
    then show ?thesis by (simp add: emitted_def)
  qed
qed

lemma emitted_report_loop_Cons:
  "emitted s (snd (report_loop rt (name # rest) s)) =
     emitted s (snd (get_container_ip_address rt name s))
     @ (case fst (get_container_ip_address rt name s) of
          Inl e \<Rightarrow> []
        | Inr ip \<Rightarrow>
            Log INFO container_fmt [AStr name, AStr (strip ip), AStr USER, AStr PASSWD]
            # emitted
                (logger INFO container_fmt
                   [AStr name, AStr (strip ip), AStr USER, AStr PASSWD]
                   (snd (get_container_ip_address rt name s)))
                (snd (report_loop rt rest
                   (logger INFO container_fmt
                      [AStr name, AStr (strip ip), AStr USER, AStr PASSWD]
                      (snd (get_container_ip_address rt name s))))))"
proof -
  obtain res s1 where g: "get_container_ip_address rt name s = (res, s1)"
    by (cases "get_container_ip_address rt name s")
  from ip_extends [of rt name s] g have a: "events s1 = events s @ emitted s s1" by simp
  show ?thesis
  proof (cases res)
    case (Inl e)
    with g show ?thesis by simp
  next
    case (Inr ip)
    let ?s2 = "logger INFO container_fmt [AStr name, AStr (strip ip), AStr USER, AStr PASSWD] s1"
    let ?b = "emitted ?s2 (snd (report_loop rt rest ?s2))"
    have "events (snd (report_loop rt rest ?s2)) = events ?s2 @ ?b"
      by (rule report_loop_extends)
    with a have "events (snd (report_loop rt rest ?s2))
        = events s @ (emitted s s1
            @ Log INFO container_fmt [AStr name, AStr (strip ip), AStr USER, AStr PASSWD] # ?b)"
      by (simp add: logger_simps)
    then have "emitted s (snd (report_loop rt rest ?s2))
        = emitted s s1
            @ Log INFO container_fmt [AStr name, AStr (strip ip), AStr USER, AStr PASSWD] # ?b"
      by (rule emitted_append)
    with g Inr show ?thesis by simp
  qed
qed

lemma report_loop_fst_Cons:
  "fst (report_loop rt (name # rest) s) =
     (case fst (get_container_ip_address rt name s) of
        Inl e \<Rightarrow> Inl e
      | Inr ip \<Rightarrow>
          fst (report_loop rt rest
                 (logger INFO container_fmt
                    [AStr name, AStr (strip ip), AStr USER, AStr PASSWD]
                    (snd (get_container_ip_address rt name s)))))"
  by (cases "get_container_ip_address rt name s") (auto split: sum.splits)

lemma report_loop_lockstep:
  assumes "responses (emitted s (snd (report_loop rt names s)))
           = responses (emitted s' (snd (report_loop rt' names s')))"
  shows "report (emitted s (snd (report_loop rt names s)))
         = report (emitted s' (snd (report_loop rt' names s')))
         \<and> fst (report_loop rt names s) = fst (report_loop rt' names s')"
  using assms
proof (induction names arbitrary: s s')
  case Nil
  then show ?case by (simp add: emitted_def)
next
  case (Cons name rest)
  let ?g1 = "get_container_ip_address rt name s"
  let ?g2 = "get_container_ip_address rt' name s'"
  show ?case
  proof (cases "fsconvert [name]")
    case (Some e)
    then have g: "fst ?g1 = Inl e" "fst ?g2 = Inl e"
      by (simp_all add: ip_result del: fsconvert.simps)
    from Some show ?thesis
      by (simp add: emitted_report_loop_Cons report_loop_fst_Cons report_append g emitted_ip
          del: report_loop.simps fsconvert.simps)
  next
    case None
    let ?r1 = "fst (rt (inspect_argv name) (world s))"
    let ?r2 = "fst (rt' (inspect_argv name) (world s'))"
    have resp1: "responses (emitted s (snd ?g1)) = [?r1]"
      by (simp add: emitted_ip None Let_def del: fsconvert.simps)
    have resp2: "responses (emitted s' (snd ?g2)) = [?r2]"
      by (simp add: emitted_ip None Let_def del: fsconvert.simps)
    from Cons.prems have same: "?r1 = ?r2"
      by (simp add: emitted_report_loop_Cons responses_append resp1 resp2
          del: report_loop.simps fsconvert.simps)
    then have res: "fst ?g1 = fst ?g2"
      by (simp add: ip_result None del: fsconvert.simps)
    from same have rep: "report (emitted s (snd ?g1)) = report (emitted s' (snd ?g2))"
      by (simp add: emitted_ip None del: fsconvert.simps)
    show ?thesis
    proof (cases "fst ?g1")
      case (Inl e)
      with res have g: "fst ?g1 = Inl e" "fst ?g2 = Inl e" by simp_all
      show ?thesis
        using rep
        by (simp add: emitted_report_loop_Cons report_loop_fst_Cons report_append g
            del: report_loop.simps fsconvert.simps)
    next
      case (Inr ip)
      with res have g: "fst ?g1 = Inr ip" "fst ?g2 = Inr ip" by simp_all
      let ?s1 = "logger INFO container_fmt
                   [AStr name, AStr (strip ip), AStr USER, AStr PASSWD] (snd ?g1)"
      let ?s2 = "logger INFO container_fmt
                   [AStr name, AStr (strip ip), AStr USER, AStr PASSWD] (snd ?g2)"
      from Cons.prems
      have "responses (emitted ?s1 (snd (report_loop rt rest ?s1)))
            = responses (emitted ?s2 (snd (report_loop rt' rest ?s2)))"
        by (simp add: emitted_report_loop_Cons responses_append resp1 resp2 g
            del: report_loop.simps fsconvert.simps)
      from Cons.IH [OF this] rep show ?thesis
        by (simp add: emitted_report_loop_Cons report_loop_fst_Cons report_append g
            del: report_loop.simps fsconvert.simps)
    qed
  qed
qed

lemma emitted_print_podman_info:
  "emitted s (snd (print_podman_info rt s)) =
     Log INFO ''Fetching podman container info'' []
     # emitted (logger INFO ''Fetching podman container info'' [] s)
         (snd (get_all_running_container_names rt
                 (logger INFO ''Fetching podman container info'' [] s)))
     @ (case fst (get_all_running_container_names rt
                    (logger INFO ''Fetching podman container info'' [] s)) of
          Inl e \<Rightarrow> []
        | Inr names \<Rightarrow>
            if names = [] then [Log WARNING ''No running containers found'' []]
            else emitted
                   (snd (get_all_running_container_names rt
                           (logger INFO ''Fetching podman container info'' [] s)))
                   (snd (report_loop rt names
                           (snd (get_all_running_container_names rt
                                   (logger INFO ''Fetching podman container info'' [] s))))))"
proof -
  let ?s1 = "logger INFO ''Fetching podman container info'' [] s"
  obtain res s2 where g: "get_all_running_container_names rt ?s1 = (res, s2)"
    by (cases "get_all_running_container_names rt ?s1")
  from names_extends [of rt ?s1] g
  have s2: "events s2 = events s @ (Log INFO ''Fetching podman container info'' [] # emitted ?s1 s2)"
    by (simp add: logger_simps)
  show ?thesis
  proof (cases res)
    case (Inl e)
    with g have "events (snd (print_podman_info rt s)) = events s2"
      by (simp add: print_podman_info_def)
    with s2 have "emitted s (snd (print_podman_info rt s))
                  = Log INFO ''Fetching podman container info'' [] # emitted ?s1 s2"
      by (intro emitted_append) simp
    with g Inl show ?thesis by simp
  next
    case (Inr names)
    show ?thesis
    proof (cases "names = []")
      case True
      with g Inr have "events (snd (print_podman_info rt s))
                       = events s2 @ [Log WARNING ''No running containers found'' []]"
        by (simp add: print_podman_info_def logger_simps)
      with s2 have "emitted s (snd (print_podman_info rt s))
                    = Log INFO ''Fetching podman container info'' [] # emitted ?s1 s2
                      @ [Log WARNING ''No running containers found'' []]"
        by (intro emitted_append) simp
      with g Inr True show ?thesis by simp
    next
      case False
      with g Inr have "events (snd (print_podman_info rt s))
                       = events (snd (report_loop rt names s2))"
        by (simp add: print_podman_info_def)
      also have "\<dots> = events s2 @ emitted s2 (snd (report_loop rt names s2))"
        by (rule report_loop_extends)
      finally have "emitted s (snd (print_podman_info rt s))
                    = Log INFO ''Fetching podman container info'' [] # emitted ?s1 s2
                      @ emitted s2 (snd (report_loop rt names s2))"
        using s2 by (intro emitted_append) simp
      with g Inr False show ?thesis by simp
    qed
  qed
qed

lemma print_podman_info_fst:
  "fst (print_podman_info rt s) =
     (case fst (get_all_running_container_names rt
                  (logger INFO ''Fetching podman container info'' [] s)) of
        Inl e \<Rightarrow> Inl e
      | Inr names \<Rightarrow>
          if names = [] then Inr ()
          else fst (report_loop rt names
                      (snd (get_all_running_container_names rt
                              (logger INFO ''Fetching podman container info'' [] s)))))"
  by (cases "get_all_running_container_names rt
               (logger INFO ''Fetching podman container info'' [] s)")
     (auto simp: print_podman_info_def split: sum.splits)

lemma print_podman_info_extends:
  "events (snd (print_podman_info rt s)) = events s @ emitted s (snd (print_podman_info rt s))"
proof -
  let ?s1 = "logger INFO ''Fetching podman container info'' [] s"
  obtain res s2 where g: "get_all_running_container_names rt ?s1 = (res, s2)"
    by (cases "get_all_running_container_names rt ?s1")
  from names_extends [of rt ?s1] g obtain a where s2: "events s2 = events s @ a"
    by (auto simp: logger_simps)
  from report_loop_extends [of rt _ s2] s2
  have loop: "\<exists>b. events (snd (report_loop rt names s2)) = events s @ b" for names
    by (metis append.assoc)
  have "\<exists>c. events (snd (print_podman_info rt s)) = events s @ c"
  proof (cases res)
    case (Inl e)
    with g s2 show ?thesis by (simp add: print_podman_info_def)
  next
    case (Inr names)
    with g s2 loop [of names] show ?thesis
      by (cases "names = []") (simp_all add: print_podman_info_def logger_simps)
  qed
  then show ?thesis by (auto simp: emitted_def)
qed

lemma counting_names:
  "fst (get_all_running_container_names counting_runtime s) = Inr [lit ''web'', lit ''db'']"
  by (simp add: names_result counting_runtime_def fleet_runtime_def ps_argv_def
      subcommand_def lit_def decode_def)

lemma fsconvert_db: "fsconvert [lit ''db''] = None"
  by (simp add: lit_def fsencodable_def)

lemma fleet_ip:
  "fsconvert [name] = None \<Longrightarrow>
   fst (get_container_ip_address fleet_runtime name s) = Inr (lit ''10.88.0.2\<newline>'')"
  by (simp add: ip_result fleet_runtime_def inspect_argv_def subcommand_def lit_def decode_def
      del: fsconvert.simps)

lemma counting_ip:
  "fsconvert [name] = None \<Longrightarrow>
   fst (get_container_ip_address counting_runtime name s) = Inr (lit ''10.88.0.2\<newline>'')"
  by (simp add: ip_result counting_runtime_def fleet_runtime_def inspect_argv_def
      subcommand_def lit_def decode_def del: fsconvert.simps)

lemma counting_response: "fst (counting_runtime argv n) = fst (fleet_runtime argv ())"
  by (simp add: counting_runtime_def)

lemma fleet_response: "fst (fleet_runtime argv w) = fst (fleet_runtime argv ())"
  by simp

lemma emitted_report_loop_Nil: "emitted s (snd (report_loop rt [] s)) = []"
  by (simp add: emitted_def)

lemma same_responses:
  "responses (emitted initial (snd (print_podman_info fleet_runtime initial)))
   = responses (emitted resumed (snd (print_podman_info counting_runtime resumed)))"
  by (simp add: emitted_print_podman_info fleet_names counting_names emitted_names
      emitted_report_loop_Cons fleet_ip counting_ip emitted_ip responses_append
      counting_response emitted_report_loop_Nil fsconvert_web fsconvert_db
      del: report_loop.simps fsconvert.simps)

text \<open>
  C9. Take two invocations of \<^verbatim>\<open>print_podman_info\<close>, on any two runtimes and from
  any two states, and let \<open>e1\<close> and \<open>e2\<close> be the events they add to their traces. If
  the runtime answered the calls of the first invocation as it answered those of the
  second (the same listing, the same inspect results, in order), then the two
  invocations log the same records in the same order, and both return or both raise.
\<close>

theorem print_podman_info_deterministic_report:
  assumes "events (snd (print_podman_info rt s)) = events s @ e1"
    and "events (snd (print_podman_info rt' s')) = events s' @ e2"
    and "responses e1 = responses e2"
  shows "report e1 = report e2 \<and> fst (print_podman_info rt s) = fst (print_podman_info rt' s')"
proof -
  let ?s1 = "logger INFO ''Fetching podman container info'' [] s"
  let ?s1' = "logger INFO ''Fetching podman container info'' [] s'"
  let ?g1 = "get_all_running_container_names rt ?s1"
  let ?g2 = "get_all_running_container_names rt' ?s1'"
  let ?q1 = "fst (rt ps_argv (world s))"
  let ?q2 = "fst (rt' ps_argv (world s'))"
  from assms(1) have e1: "e1 = emitted s (snd (print_podman_info rt s))"
    by (simp add: emitted_append)
  from assms(2) have e2: "e2 = emitted s' (snd (print_podman_info rt' s'))"
    by (simp add: emitted_append)
  have resp1: "responses (emitted ?s1 (snd ?g1)) = [?q1]"
    by (simp add: emitted_names logger_simps)
  have resp2: "responses (emitted ?s1' (snd ?g2)) = [?q2]"
    by (simp add: emitted_names logger_simps)
  from assms(3) have same: "?q1 = ?q2"
    unfolding e1 e2 by (simp add: emitted_print_podman_info responses_append resp1 resp2)
  then have res: "fst ?g1 = fst ?g2" by (simp add: names_result logger_simps)
  from same have rep: "report (emitted ?s1 (snd ?g1)) = report (emitted ?s1' (snd ?g2))"
    by (simp add: emitted_names logger_simps)
  show ?thesis
  proof (cases "fst ?g1")
    case (Inl e)
    with res have g: "fst ?g1 = Inl e" "fst ?g2 = Inl e" by simp_all
    show ?thesis
      unfolding e1 e2 using rep
      by (simp add: emitted_print_podman_info print_podman_info_fst report_append g)
  next
    case (Inr names)
    with res have g: "fst ?g1 = Inr names" "fst ?g2 = Inr names" by simp_all
    show ?thesis
    proof (cases "names = []")
      case True
      show ?thesis
        unfolding e1 e2 using rep
        by (simp add: emitted_print_podman_info print_podman_info_fst report_append g True)
    next
      case False
      from assms(3) have "responses (emitted (snd ?g1) (snd (report_loop rt names (snd ?g1))))
                          = responses (emitted (snd ?g2) (snd (report_loop rt' names (snd ?g2))))"
        unfolding e1 e2
        by (simp add: emitted_print_podman_info responses_append resp1 resp2 g False)
      from report_loop_lockstep [OF this] rep show ?thesis
        unfolding e1 e2
        by (simp add: emitted_print_podman_info print_podman_info_fst report_append g False)
    qed
  qed
qed


theorem print_podman_info_deterministic_report_witness:
  "responses (emitted initial (snd (print_podman_info fleet_runtime initial)))
   = responses (emitted resumed (snd (print_podman_info counting_runtime resumed)))
   \<and> report (emitted initial (snd (print_podman_info fleet_runtime initial)))
     = report (emitted resumed (snd (print_podman_info counting_runtime resumed)))
   \<and> fst (print_podman_info fleet_runtime initial)
     = fst (print_podman_info counting_runtime resumed)"
  using print_podman_info_deterministic_report
          [OF print_podman_info_extends print_podman_info_extends same_responses]
        same_responses
  by simp

subsection \<open>The address of a container\<close>

lemma strip_trimmed: "trimmed (strip t)"
proof -
  let ?y = "dropWhile isspace t"
  let ?d = "dropWhile isspace (rev ?y)"
  have z: "strip t = rev ?d" by (simp add: strip_def)
  show ?thesis
  proof (cases "?d = []")
    case True
    with z show ?thesis by (simp add: trimmed_def)
  next
    case False
    then have lastz: "\<not> isspace (last (rev ?d))"
      using hd_dropWhile [of isspace "rev ?y"] by (simp add: last_rev)
    have "rev ?y = takeWhile isspace (rev ?y) @ ?d" by simp
    then have "?y = rev ?d @ rev (takeWhile isspace (rev ?y))"
      by (metis rev_append rev_rev_ident)
    with False have "hd ?y = hd (rev ?d)" and "?y \<noteq> []"
      by (metis hd_append2 rev_is_Nil_conv, metis Nil_is_append_conv rev_is_Nil_conv)
    with hd_dropWhile [of isspace t] have hdz: "\<not> isspace (hd (rev ?d))" by simp
    from False obtain c cs where "rev ?d = c # cs" by (cases "rev ?d") auto
    with hdz lastz z show ?thesis by (simp add: trimmed_def)
  qed
qed

lemma report_loop_step:
  assumes "get_container_ip_address rt name s = (Inr ip, s1)"
  shows "report_loop rt (name # rest) s =
           report_loop rt rest
             (logger INFO container_fmt
                [AStr name, AStr (strip ip), AStr USER, AStr PASSWD] s1)"
  using assms by simp


lemma fleet_address:
  "fst (get_container_ip_address fleet_runtime (lit ''web'') initial)
     = Inr (lit ''10.88.0.2\<newline>'')"
  by (rule fleet_ip) (rule fsconvert_web)

text \<open>
  C1, as the code has it. \<^verbatim>\<open>_get_container_ip_address\<close> does not trim: when it
  returns, its value is the literal \<^verbatim>\<open>"0.0.0.0"\<close> for a non-empty error stream and
  the decoded output of the runtime, unchanged, otherwise. The trimming is done by the
  caller: the loop of \<^verbatim>\<open>print_podman_info\<close> logs \<^verbatim>\<open>ip.strip()\<close>, and that
  logged value is a trimmed string for every container name and every inspect result.
\<close>

theorem get_container_ip_address_reported_trimmed:
  assumes "get_container_ip_address rt container_name s = (Inr ip, s1)"
  shows "(if stderr (fst (rt (inspect_argv container_name) (world s))) \<noteq> []
          then ip = lit ''0.0.0.0''
          else decode (stdout (fst (rt (inspect_argv container_name) (world s)))) = Inr ip)
         \<and> report_loop rt (container_name # rest) s =
             report_loop rt rest
               (logger INFO container_fmt
                  [AStr container_name, AStr (strip ip), AStr USER, AStr PASSWD] s1)
         \<and> trimmed (strip ip)"
proof -
  from assms have "fst (get_container_ip_address rt container_name s) = Inr ip" by simp
  then have "if stderr (fst (rt (inspect_argv container_name) (world s))) \<noteq> []
             then ip = lit ''0.0.0.0''
             else decode (stdout (fst (rt (inspect_argv container_name) (world s)))) = Inr ip"
    by (cases "fsconvert [container_name]")
       (simp_all add: ip_result Let_def split: if_splits del: fsconvert.simps)
  with report_loop_step [OF assms] strip_trimmed show ?thesis by simp
qed

theorem get_container_ip_address_reported_trimmed_witness:
  "get_container_ip_address fleet_runtime (lit ''web'') initial
     = (Inr (lit ''10.88.0.2\<newline>''),
        snd (get_container_ip_address fleet_runtime (lit ''web'') initial))
   \<and> trimmed (strip (lit ''10.88.0.2\<newline>''))
   \<and> strip (lit ''10.88.0.2\<newline>'') = lit ''10.88.0.2''"
proof -
  have h: "get_container_ip_address fleet_runtime (lit ''web'') initial
           = (Inr (lit ''10.88.0.2\<newline>''),
              snd (get_container_ip_address fleet_runtime (lit ''web'') initial))"
    using fleet_address by (simp add: prod_eq_iff del: fsconvert.simps)
  have "strip (lit ''10.88.0.2\<newline>'') = lit ''10.88.0.2''"
    by (simp add: strip_def lit_def isspace_def)
  with get_container_ip_address_reported_trimmed [OF h, of "[]"] h show ?thesis by blast
qed

theorem get_container_ip_address_untrimmed_counterexample:
  "fst (get_container_ip_address fleet_runtime (lit ''web'') initial)
     = Inr (lit ''10.88.0.2\<newline>'')
   \<and> \<not> trimmed (lit ''10.88.0.2\<newline>'')"
  using fleet_address by (simp add: trimmed_def lit_def isspace_def)

subsection \<open>The top-level dispatch\<close>















lemma main_Stop:
  "main rt dockerfile Stop s =
     (case stop_podman_containers rt s of
        (Inl e, s1) \<Rightarrow> (Inl e, s1)
      | (Inr _, s1) \<Rightarrow> apfst (map_sum id (\<lambda>_. 0)) (print_podman_info rt s1))"
  by (auto simp: main_def split: prod.splits sum.splits)
















lemma main_Stop_returns:
  assumes "fst (stop_podman_containers rt s) = Inr ()"
  shows "main rt dockerfile Stop s =
           apfst (map_sum id (\<lambda>_. 0))
             (print_podman_info rt (snd (stop_podman_containers rt s)))"
  using assms by (cases "stop_podman_containers rt s") (simp add: main_Stop)







end
